theory Spec2Isabelle
  imports
    Complex_Main
    "HOL-Library.Char_ord"
    "HOL-Library.List_Lexorder"
    "HOL-Library.Product_Lexorder"
    "HOL-Library.Multiset"
begin

section \<open>Values of the numeric columns\<close>

text \<open>
  The dashboard script \<^verbatim>\<open>app.py\<close> computes with \<^verbatim>\<open>numpy.float64\<close> scalars: the
  entries of the \<^verbatim>\<open>Capacity\<close> column, \<^verbatim>\<open>model.coef_[0]\<close> and \<^verbatim>\<open>model.intercept_\<close>.
  Arithmetic on such scalars never raises: a division by zero gives an infinity or a
  NaN (with a warning), where a division of plain Python floats would raise.

  Finite values are modelled as exact reals (rounding, overflow and underflow of the
  64-bit format are not modelled); the special values are kept, since the script can
  produce them. \<open>Fin 0\<close> is \<^verbatim>\<open>+0.0\<close> and \<open>NegZero\<close> is \<^verbatim>\<open>-0.0\<close>.
\<close>

datatype npfloat = Fin real | NegZero | PInf | NInf | NaN

fun signbit :: "npfloat \<Rightarrow> bool" where
  "signbit (Fin r) = (r < 0)"
| "signbit NegZero = True"
| "signbit PInf = False"
| "signbit NInf = True"
| "signbit NaN = False"

fun is_zero :: "npfloat \<Rightarrow> bool" where
  "is_zero (Fin r) = (r = 0)"
| "is_zero NegZero = True"
| "is_zero _ = False"

fun is_inf :: "npfloat \<Rightarrow> bool" where
  "is_inf PInf = True"
| "is_inf NInf = True"
| "is_inf _ = False"

fun is_nan :: "npfloat \<Rightarrow> bool" where
  "is_nan NaN = True"
| "is_nan _ = False"

fun fval :: "npfloat \<Rightarrow> real" where
  "fval (Fin r) = r"
| "fval _ = 0"

text \<open>A value that is neither an infinity nor NaN.\<close>

definition is_finite :: "npfloat \<Rightarrow> bool" where
  "is_finite x = (\<not> is_nan x \<and> \<not> is_inf x)"

definition signed_inf :: "bool \<Rightarrow> npfloat" where
  "signed_inf neg = (if neg then NInf else PInf)"

definition signed_zero :: "bool \<Rightarrow> npfloat" where
  "signed_zero neg = (if neg then NegZero else Fin 0)"

text \<open>Subtraction \<^verbatim>\<open>x - y\<close>; equal finite operands give \<^verbatim>\<open>+0.0\<close>.\<close>

definition np_sub :: "npfloat \<Rightarrow> npfloat \<Rightarrow> npfloat" where
  "np_sub x y =
     (if is_nan x \<or> is_nan y then NaN
      else if is_inf x then (if is_inf y \<and> signbit x = signbit y then NaN else x)
      else if is_inf y then signed_inf (\<not> signbit y)
      else if is_zero x \<and> is_zero y then signed_zero (signbit x \<and> \<not> signbit y)
      else Fin (fval x - fval y))"

text \<open>Division \<^verbatim>\<open>x / y\<close>; a zero divisor gives a signed infinity, or NaN for \<^verbatim>\<open>0 / 0\<close>.\<close>

definition np_div :: "npfloat \<Rightarrow> npfloat \<Rightarrow> npfloat" where
  "np_div x y =
     (if is_nan x \<or> is_nan y then NaN
      else if is_inf x then (if is_inf y then NaN else signed_inf (signbit x \<noteq> signbit y))
      else if is_inf y then signed_zero (signbit x \<noteq> signbit y)
      else if is_zero y then (if is_zero x then NaN else signed_inf (signbit x \<noteq> signbit y))
      else if is_zero x then signed_zero (signbit x \<noteq> signbit y)
      else Fin (fval x / fval y))"

text \<open>Multiplication \<^verbatim>\<open>x * y\<close>.\<close>

definition np_mul :: "npfloat \<Rightarrow> npfloat \<Rightarrow> npfloat" where
  "np_mul x y =
     (if is_nan x \<or> is_nan y then NaN
      else if is_inf x \<or> is_inf y then
        (if is_zero x \<or> is_zero y then NaN else signed_inf (signbit x \<noteq> signbit y))
      else if is_zero x \<or> is_zero y then signed_zero (signbit x \<noteq> signbit y)
      else Fin (fval x * fval y))"

text \<open>
  \<^verbatim>\<open>max(0, x)\<close> of Python keeps its first argument unless \<^verbatim>\<open>x > 0\<close> holds; a
  comparison with NaN is false. The integer \<^verbatim>\<open>0\<close> it then returns is written
  \<open>Fin 0\<close>: both convert to the integer 0.
\<close>

fun np_gt_zero :: "npfloat \<Rightarrow> bool" where
  "np_gt_zero (Fin r) = (0 < r)"
| "np_gt_zero PInf = True"
| "np_gt_zero _ = False"

definition py_max0 :: "npfloat \<Rightarrow> npfloat" where
  "py_max0 x = (if np_gt_zero x then x else Fin 0)"

datatype py_error = IndexError | OverflowError | ValueError

text \<open>
  \<^verbatim>\<open>int(x)\<close> truncates toward zero; it raises \<^verbatim>\<open>OverflowError\<close> on an infinity and
  \<^verbatim>\<open>ValueError\<close> on NaN.
\<close>

definition trunc_toward_zero :: "real \<Rightarrow> int" where
  "trunc_toward_zero r = (if 0 \<le> r then \<lfloor>r\<rfloor> else \<lceil>r\<rceil>)"

fun py_int :: "npfloat \<Rightarrow> py_error + int" where
  "py_int (Fin r) = Inr (trunc_toward_zero r)"
| "py_int NegZero = Inr 0"
| "py_int PInf = Inl OverflowError"
| "py_int NInf = Inl OverflowError"
| "py_int NaN = Inl ValueError"

section \<open>Remaining useful life and the alert\<close>

text \<open>\<^verbatim>\<open>EOL_THRESHOLD = 1.4\<close>, the capacity (Ah) at which a battery is replaced.\<close>

definition EOL_THRESHOLD :: real where
  "EOL_THRESHOLD = 14 / 10"

text \<open>
  \<^verbatim>\<open>predicted_end_cycle = (EOL_THRESHOLD - c) / m\<close> and
  \<^verbatim>\<open>remaining_cycles = int(max(0, predicted_end_cycle - current_cycle))\<close>,
  for the slope \<open>m\<close> and intercept \<open>c\<close> of the fitted line.
\<close>

definition predicted_end_cycle :: "npfloat \<Rightarrow> npfloat \<Rightarrow> npfloat" where
  "predicted_end_cycle m c = np_div (np_sub (Fin EOL_THRESHOLD) c) m"

definition remaining_cycles :: "npfloat \<Rightarrow> npfloat \<Rightarrow> int \<Rightarrow> py_error + int" where
  "remaining_cycles m c current_cycle =
     py_int (py_max0 (np_sub (predicted_end_cycle m c) (Fin (of_int current_cycle))))"

text \<open>
  The alert under the trend chart: \<^verbatim>\<open>st.error\<close> (urgent) when
  \<^verbatim>\<open>remaining_cycles < 15\<close>, \<^verbatim>\<open>st.success\<close> (healthy) otherwise.
\<close>

datatype alert = URGENT | HEALTHY

definition alert_of :: "int \<Rightarrow> alert" where
  "alert_of rc = (if rc < 15 then URGENT else HEALTHY)"

section \<open>Ingestion of the metadata table\<close>

text \<open>
  A row of \<^verbatim>\<open>metadata.csv\<close>, with the columns the health data depend on (the other
  columns are carried along unchanged). The type of the \<^verbatim>\<open>Capacity\<close> cell changes on
  the way: text as read from the file, a number or NaN after the coercion, a number
  in the health table.
\<close>

record 'c test_record =
  battery_id :: string
  test_id :: int
  type :: string
  Capacity :: 'c

text \<open>A row of \<^verbatim>\<open>health_df\<close>: the \<^verbatim>\<open>cycle\<close> column is added by \<^verbatim>\<open>load_metadata\<close>.\<close>

record cycle_record = "real test_record" +
  cycle :: nat

text \<open>
  \<^verbatim>\<open>df['Capacity'] = pd.to_numeric(df['Capacity'], errors='coerce')\<close>: the parser
  \<open>to_numeric\<close> of the library is a parameter; \<open>None\<close> is the NaN it gives a cell that
  is empty or not a number.
\<close>

definition coerce_Capacity ::
  "(string \<Rightarrow> real option) \<Rightarrow> string test_record \<Rightarrow> real option test_record" where
  "coerce_Capacity to_numeric r =
     \<lparr>battery_id = battery_id r, test_id = test_id r, type = type r,
      Capacity = to_numeric (Capacity r)\<rparr>"

text \<open>
  \<^verbatim>\<open>df[df['type'] == 'discharge'].dropna(subset=['Capacity'])\<close>: a row is kept when
  its type is \<^verbatim>\<open>discharge\<close> and its capacity is not NaN.
\<close>

definition discharge_dropna :: "real option test_record \<Rightarrow> real test_record option" where
  "discharge_dropna r =
     (if type r = ''discharge'' then
        (case Capacity r of
           None \<Rightarrow> None
         | Some v \<Rightarrow>
             Some \<lparr>battery_id = battery_id r, test_id = test_id r, type = type r, Capacity = v\<rparr>)
      else None)"

text \<open>
  \<^verbatim>\<open>groupby('battery_id').cumcount()\<close>: each row gets the number of earlier rows of
  its own group. \<open>seen\<close> holds the keys of the rows already passed.
\<close>

fun cumcount_from :: "'k list \<Rightarrow> 'k list \<Rightarrow> nat list" where
  "cumcount_from seen [] = []"
| "cumcount_from seen (k # ks) = count_list seen k # cumcount_from (k # seen) ks"

definition cumcount :: "'k list \<Rightarrow> nat list" where
  "cumcount ks = cumcount_from [] ks"

definition with_cycle :: "real test_record \<Rightarrow> nat \<Rightarrow> cycle_record" where
  "with_cycle r n =
     \<lparr>battery_id = battery_id r, test_id = test_id r, type = type r, Capacity = Capacity r,
      cycle = n\<rparr>"

text \<open>
  \<^verbatim>\<open>load_metadata\<close>, for a file that exists: the coerced table and the health table,
  sorted by \<^verbatim>\<open>['battery_id', 'test_id']\<close> and numbered by \<^verbatim>\<open>cumcount() + 1\<close>.
\<close>

definition load_metadata ::
  "(string \<Rightarrow> real option) \<Rightarrow> string test_record list
     \<Rightarrow> real option test_record list \<times> cycle_record list" where
  "load_metadata to_numeric csv =
     (let df = map (coerce_Capacity to_numeric) csv;
          health_df = List.map_filter discharge_dropna df;
          health_df = sort_key (\<lambda>r. (battery_id r, test_id r)) health_df;
          cycles = map (\<lambda>n. n + 1) (cumcount (map battery_id health_df))
      in (df, map2 with_cycle health_df cycles))"

text \<open>\<^verbatim>\<open>b_history = health_data[health_data['battery_id'] == selected_id]\<close>\<close>

definition b_history :: "cycle_record list \<Rightarrow> string \<Rightarrow> cycle_record list" where
  "b_history health_data selected_id = filter (\<lambda>r. battery_id r = selected_id) health_data"

section \<open>The trend fit\<close>

text \<open>
  \<^verbatim>\<open>LinearRegression().fit(X, y)\<close> is a call into scikit-learn, whose code is not part
  of the repository. The spec describes it as ordinary least-squares regression of
  capacity on the cycle index over the whole history, producing the slope and intercept
  that minimise the squared residuals. The library centres both columns on their means
  and solves the centred system.
\<close>

definition mean :: "real list \<Rightarrow> real" where
  "mean xs = sum_list xs / real (length xs)"

text \<open>
  Modelled from the spec: the slope of the least-squares line of \<open>y\<close> on \<open>X\<close>, which
  the library call computes. With one feature and an intercept it is the quotient of
  the centred sums; when all abscissae are equal it is the minimum-norm solution 0.
\<close>

definition ols_slope :: "real list \<Rightarrow> real list \<Rightarrow> real" where
  "ols_slope X y =
     (let sxx = (\<Sum>x\<leftarrow>X. (x - mean X) ^ 2);
          sxy = (\<Sum>(x, v)\<leftarrow>zip X y. (x - mean X) * (v - mean y))
      in if sxx = 0 then 0 else sxy / sxx)"

text \<open>
  Modelled from the spec: the intercept of the least-squares line, which the library
  call computes: the line passes through the point of the means.
\<close>

definition ols_intercept :: "real list \<Rightarrow> real list \<Rightarrow> real" where
  "ols_intercept X y = mean y - ols_slope X y * mean X"

text \<open>
  Modelled from the spec: the fitted coefficients as the script reads them,
  \<^verbatim>\<open>model.coef_[0]\<close> and \<^verbatim>\<open>model.intercept_\<close>, which the library call returns. Least
  squares does not fix the sign of a zero coefficient, and the division by the slope
  depends on it: \<open>neg_zero\<close> says whether a zero slope comes back as \<^verbatim>\<open>-0.0\<close>.
\<close>

definition LinearRegression_fit :: "bool \<Rightarrow> real list \<Rightarrow> real list \<Rightarrow> npfloat \<times> npfloat" where
  "LinearRegression_fit neg_zero X y =
     (let m = ols_slope X y
      in (if m = 0 \<and> neg_zero then NegZero else Fin m, Fin (ols_intercept X y)))"

text \<open>The sum of squared residuals of the line \<open>m * x + c\<close> on the data.\<close>

definition squared_residuals :: "real list \<Rightarrow> real list \<Rightarrow> real \<Rightarrow> real \<Rightarrow> real" where
  "squared_residuals X y m c = (\<Sum>(x, v)\<leftarrow>zip X y. (v - (m * x + c)) ^ 2)"

section \<open>The health estimator\<close>

text \<open>\<^verbatim>\<open>.iloc[0]\<close> and \<^verbatim>\<open>.iloc[-1]\<close> raise \<^verbatim>\<open>IndexError\<close> on an empty column.\<close>

definition iloc_first :: "'a list \<Rightarrow> py_error + 'a" where
  "iloc_first xs = (case xs of [] \<Rightarrow> Inl IndexError | x # _ \<Rightarrow> Inr x)"

definition iloc_last :: "'a list \<Rightarrow> py_error + 'a" where
  "iloc_last xs = (if xs = [] then Inl IndexError else Inr (last xs))"

text \<open>\<^verbatim>\<open>soh = (latest_capacity / start_capacity) * 100\<close>\<close>

definition soh :: "cycle_record list \<Rightarrow> py_error + npfloat" where
  "soh history =
     (case iloc_last (map Capacity history) of
        Inl e \<Rightarrow> Inl e
      | Inr latest_capacity \<Rightarrow>
          (case iloc_first (map Capacity history) of
             Inl e \<Rightarrow> Inl e
           | Inr start_capacity \<Rightarrow>
               Inr (np_mul (np_div (Fin latest_capacity) (Fin start_capacity)) (Fin 100))))"

record health_estimate =
  est_soh :: npfloat
  est_latest_capacity :: real
  est_slope :: npfloat
  est_intercept :: npfloat
  est_remaining_cycles :: int

text \<open>
  The script from the data filtering to the remaining useful life, in its order: the
  current cycle, the state of health, the fit, the prediction. The first statement
  that raises ends the run.
\<close>

definition health_estimator :: "bool \<Rightarrow> cycle_record list \<Rightarrow> py_error + health_estimate" where
  "health_estimator neg_zero history =
     (case iloc_last (map cycle history) of
        Inl e \<Rightarrow> Inl e
      | Inr current_cycle \<Rightarrow>
          (case iloc_last (map Capacity history) of
             Inl e \<Rightarrow> Inl e
           | Inr latest_capacity \<Rightarrow>
               (case soh history of
                  Inl e \<Rightarrow> Inl e
                | Inr s \<Rightarrow>
                    (let X = map (\<lambda>r. real (cycle r)) history;
                         y = map Capacity history;
                         (m, c) = LinearRegression_fit neg_zero X y
                     in case remaining_cycles m c (int current_cycle) of
                          Inl e \<Rightarrow> Inl e
                        | Inr rc \<Rightarrow>
                            Inr \<lparr>est_soh = s, est_latest_capacity = latest_capacity,
                                 est_slope = m, est_intercept = c,
                                 est_remaining_cycles = rc\<rparr>))))"

text \<open>
  The alert the page shows for a history. Before it, the script draws the forecast
  line with \<^verbatim>\<open>model.predict(np.array([[1], [predicted_end_cycle + 20]]))\<close>;
  scikit-learn validates the input of \<^verbatim>\<open>predict\<close> and raises \<^verbatim>\<open>ValueError\<close> when an
  entry is infinite or NaN, and \<^verbatim>\<open>predicted_end_cycle + 20\<close> is finite exactly when
  \<^verbatim>\<open>predicted_end_cycle\<close> is.
\<close>

definition classification :: "bool \<Rightarrow> cycle_record list \<Rightarrow> py_error + alert" where
  "classification neg_zero history =
     (case health_estimator neg_zero history of
        Inl e \<Rightarrow> Inl e
      | Inr est \<Rightarrow>
          (if is_finite (predicted_end_cycle (est_slope est) (est_intercept est))
           then Inr (alert_of (est_remaining_cycles est))
           else Inl ValueError))"

section \<open>The sensor charts\<close>

text \<open>
  \<^verbatim>\<open>v_col = 'Voltage_measured' if 'Voltage_measured' in sensor_df.columns else
  sensor_df.columns[0]\<close>, and the same for the temperature. \<open>columns\<close> are the column
  names of the selected log file, in the file's order.
\<close>

definition v_col :: "string list \<Rightarrow> py_error + string" where
  "v_col columns =
     (if ''Voltage_measured'' \<in> set columns then Inr ''Voltage_measured''
      else iloc_first columns)"

definition t_col :: "string list \<Rightarrow> py_error + string" where
  "t_col columns =
     (if ''Temperature_measured'' \<in> set columns then Inr ''Temperature_measured''
      else iloc_first columns)"

section \<open>Auxiliary notions for the statements\<close>

text \<open>
  The invariant of a battery history: its cycle numbers are \<open>1, 2, \<dots>, N\<close> in this
  order. The histories that \<open>load_metadata\<close> builds have it.
\<close>

definition contiguous_cycles :: "cycle_record list \<Rightarrow> bool" where
  "contiguous_cycles history = (map cycle history = [1..<Suc (length history)])"

text \<open>
  The row of cycle \<open>n\<close> with capacity \<open>v\<close> in the history of one battery, for the
  scenarios: a history \<^verbatim>\<open>[(1, 2.0), (2, 1.8)]\<close> is \<open>[cycle_row 1 2, cycle_row 2 (18 / 10)]\<close>.
\<close>

definition cycle_row :: "nat \<Rightarrow> real \<Rightarrow> cycle_record" where
  "cycle_row n v =
     \<lparr>battery_id = ''B0005'', test_id = int n, type = ''discharge'', Capacity = v, cycle = n\<rparr>"

text \<open>The centred sums of the closed form, over the rows \<open>h\<close> with columns \<open>f\<close> and \<open>g\<close>.\<close>

definition sxx :: "('a \<Rightarrow> real) \<Rightarrow> 'a list \<Rightarrow> real" where
  "sxx f h = (\<Sum>r\<leftarrow>h. (f r - mean (map f h)) ^ 2)"

definition sxy :: "('a \<Rightarrow> real) \<Rightarrow> ('a \<Rightarrow> real) \<Rightarrow> 'a list \<Rightarrow> real" where
  "sxy f g h = (\<Sum>r\<leftarrow>h. (f r - mean (map f h)) * (g r - mean (map g h)))"

text \<open>
  A small metadata table with the three test types, a malformed capacity (\<^verbatim>\<open>[]\<close>) and
  rows out of order, and a parser for the capacities that occur in it.
\<close>

definition sample_to_numeric :: "string \<Rightarrow> real option" where
  "sample_to_numeric s =
     (if s = ''2.0'' then Some 2
      else if s = ''1.8'' then Some (18 / 10)
      else if s = ''1.6'' then Some (16 / 10)
      else None)"

definition sample_csv :: "string test_record list" where
  "sample_csv =
     [\<lparr>battery_id = ''B0006'', test_id = 1, type = ''discharge'', Capacity = ''1.8''\<rparr>,
      \<lparr>battery_id = ''B0005'', test_id = 4, type = ''discharge'', Capacity = ''1.6''\<rparr>,
      \<lparr>battery_id = ''B0005'', test_id = 0, type = ''charge'', Capacity = []\<rparr>,
      \<lparr>battery_id = ''B0005'', test_id = 3, type = ''discharge'', Capacity = ''[]''\<rparr>,
      \<lparr>battery_id = ''B0005'', test_id = 2, type = ''impedance'', Capacity = []\<rparr>,
      \<lparr>battery_id = ''B0005'', test_id = 1, type = ''discharge'', Capacity = ''2.0''\<rparr>]"

section \<open>Remaining useful life\<close>


lemma remaining_cycles_error: "remaining_cycles m c k = Inl e \<Longrightarrow> e = OverflowError"
  unfolding remaining_cycles_def
  by (cases "np_sub (predicted_end_cycle m c) (Fin (real_of_int k))")
    (auto simp: py_max0_def split: if_splits)




section \<open>Alert classification\<close>

text \<open>
  Claim C5. The alert is a threshold on the remaining cycles: HEALTHY exactly when
  they are at least 15, URGENT exactly when they are below 15; 15 remaining cycles give
  HEALTHY and 14 give URGENT.
\<close>

theorem alert_threshold:
  "(alert_of rc = HEALTHY) = (15 \<le> rc) \<and> (alert_of rc = URGENT) = (rc < 15) \<and>
   alert_of 15 = HEALTHY \<and> alert_of 14 = URGENT"
  by (simp add: alert_of_def)

section \<open>State of health\<close>

lemma soh_nonempty:
  "history \<noteq> [] \<Longrightarrow> soh history =
     Inr (np_mul (np_div (Fin (Capacity (last history))) (Fin (Capacity (hd history)))) (Fin 100))"
  by (cases history) (simp_all add: soh_def iloc_last_def iloc_first_def last_map)

text \<open>
  Claim C2. On a non-empty history the state of health is
  \<open>(latest_capacity / baseline_capacity) * 100\<close>, the baseline being the capacity of the
  first record and the latest that of the last: the code's float expression on these
  two values, which for a baseline other than zero is the finite number
  \<open>latest / baseline * 100\<close>. When the two capacities are equal and not zero, it is
  exactly 100.
\<close>

theorem soh_formula:
  "history \<noteq> [] \<longrightarrow>
     soh history =
       Inr (np_mul (np_div (Fin (Capacity (last history))) (Fin (Capacity (hd history))))
              (Fin 100)) \<and>
     (Capacity (hd history) \<noteq> 0 \<longrightarrow>
        (\<exists>s. soh history = Inr s \<and> is_finite s \<and>
             fval s = Capacity (last history) / Capacity (hd history) * 100)) \<and>
     (Capacity (last history) = Capacity (hd history) \<and> Capacity (hd history) \<noteq> 0 \<longrightarrow>
        soh history = Inr (Fin 100))"
  by (auto simp: soh_nonempty is_finite_def np_mul_def np_div_def signed_zero_def
      signed_inf_def)

theorem soh_formula_witness:
  "[cycle_row 1 2, cycle_row 2 (18 / 10), cycle_row 3 2] \<noteq> [] \<and>
   Capacity (hd [cycle_row 1 2, cycle_row 2 (18 / 10), cycle_row 3 2]) \<noteq> 0 \<and>
   Capacity (last [cycle_row 1 2, cycle_row 2 (18 / 10), cycle_row 3 2]) =
     Capacity (hd [cycle_row 1 2, cycle_row 2 (18 / 10), cycle_row 3 2]) \<and>
   soh [cycle_row 1 2, cycle_row 2 (18 / 10), cycle_row 3 2] = Inr (Fin 100)"
proof -
  let ?h = "[cycle_row 1 2, cycle_row 2 (18 / 10), cycle_row 3 2]"
  have ne: "?h \<noteq> []"
    by simp
  have base: "Capacity (hd ?h) \<noteq> 0"
    by (simp add: cycle_row_def)
  have same: "Capacity (last ?h) = Capacity (hd ?h)"
    by (simp add: cycle_row_def)
  from soh_formula [of ?h] ne base same have "soh ?h = Inr (Fin 100)"
    by blast
  with ne base same show ?thesis
    by blast
qed

section \<open>Failures of the estimator\<close>

lemma health_estimator_IndexError:
  "(health_estimator nz history = Inl IndexError) = (history = [])"
proof (cases "history = []")
  case True
  then show ?thesis
    by (simp add: health_estimator_def iloc_last_def)
next
  case False
  then show ?thesis
    by (auto simp: health_estimator_def iloc_last_def soh_nonempty Let_def
        split: prod.splits sum.splits dest: remaining_cycles_error)
qed

text \<open>
  Claim C8, as amended. The estimator fails with \<^verbatim>\<open>IndexError\<close> exactly when the
  history has no record. A baseline capacity of zero does not make it fail: on every
  non-empty history the state of health is computed without raising, and it is an
  infinity or NaN when the baseline capacity is zero.
\<close>

theorem estimator_failure:
  "(health_estimator nz history = Inl IndexError) = (history = []) \<and>
   (soh history = Inl IndexError) = (history = []) \<and>
   (history \<noteq> [] \<longrightarrow> (\<exists>s. soh history = Inr s)) \<and>
   (history \<noteq> [] \<and> Capacity (hd history) = 0 \<longrightarrow>
      (\<exists>s. soh history = Inr s \<and> (is_inf s \<or> is_nan s)))"
proof (intro conjI impI)
  show "(health_estimator nz history = Inl IndexError) = (history = [])"
    by (rule health_estimator_IndexError)
  show "(soh history = Inl IndexError) = (history = [])"
    by (cases "history = []") (simp_all add: soh_nonempty, simp add: soh_def iloc_last_def)
  show "\<exists>s. soh history = Inr s" if "history \<noteq> []"
    using that by (simp add: soh_nonempty)
  show "\<exists>s. soh history = Inr s \<and> (is_inf s \<or> is_nan s)"
    if "history \<noteq> [] \<and> Capacity (hd history) = 0"
    using that
    by (auto simp: soh_nonempty np_mul_def np_div_def signed_zero_def signed_inf_def)
qed

theorem estimator_failure_witness:
  "[cycle_row 1 0, cycle_row 2 1] \<noteq> [] \<and> Capacity (hd [cycle_row 1 0, cycle_row 2 1]) = 0 \<and>
   health_estimator False [cycle_row 1 0, cycle_row 2 1] \<noteq> Inl IndexError \<and>
   (\<exists>s. soh [cycle_row 1 0, cycle_row 2 1] = Inr s \<and> (is_inf s \<or> is_nan s))"
proof -
  let ?h = "[cycle_row 1 0, cycle_row 2 1]"
  have ne: "?h \<noteq> []"
    by simp
  have base: "Capacity (hd ?h) = 0"
    by (simp add: cycle_row_def)
  note f = estimator_failure [of False ?h]
  from f ne have "health_estimator False ?h \<noteq> Inl IndexError"
    by blast
  moreover from f ne base have "\<exists>s. soh ?h = Inr s \<and> (is_inf s \<or> is_nan s)"
    by blast
  ultimately show ?thesis
    using ne base by blast
qed

text \<open>
  Claim C8 as stated fails on the history \<^verbatim>\<open>[(1, 0.0), (2, 1.0)]\<close>: its baseline
  capacity is zero and the estimator returns, with an infinite state of health.
\<close>

theorem zero_baseline_succeeds:
  "Capacity (hd [cycle_row 1 0, cycle_row 2 1]) = 0 \<and>
   health_estimator False [cycle_row 1 0, cycle_row 2 1] =
     Inr \<lparr>est_soh = PInf, est_latest_capacity = 1, est_slope = Fin 1,
          est_intercept = Fin (- 1), est_remaining_cycles = 0\<rparr> \<and>
   health_estimator True [cycle_row 1 0, cycle_row 2 1] =
     Inr \<lparr>est_soh = PInf, est_latest_capacity = 1, est_slope = Fin 1,
          est_intercept = Fin (- 1), est_remaining_cycles = 0\<rparr>"
  by (simp add: health_estimator_def cycle_row_def iloc_last_def iloc_first_def soh_def
      LinearRegression_fit_def ols_slope_def ols_intercept_def mean_def remaining_cycles_def
      predicted_end_cycle_def np_sub_def np_div_def np_mul_def signed_inf_def signed_zero_def
      py_max0_def EOL_THRESHOLD_def trunc_toward_zero_def power2_eq_square)

section \<open>A flat history\<close>

text \<open>
  Claim C3 asks that a zero slope is detected and the remaining life reported as
  unbounded. The script divides by the slope all the same. On the flat history
  \<^verbatim>\<open>[(1, 2.0), (2, 2.0), (3, 2.0)]\<close> the quotient is an infinity: with the slope
  \<^verbatim>\<open>+0.0\<close> the remaining cycles are 0 and the forecast line raises, with the slope
  \<^verbatim>\<open>-0.0\<close> the conversion to an integer raises.
\<close>

theorem flat_history_raises:
  "health_estimator False [cycle_row 1 2, cycle_row 2 2, cycle_row 3 2] =
     Inr \<lparr>est_soh = Fin 100, est_latest_capacity = 2, est_slope = Fin 0,
          est_intercept = Fin 2, est_remaining_cycles = 0\<rparr> \<and>
   classification False [cycle_row 1 2, cycle_row 2 2, cycle_row 3 2] = Inl ValueError \<and>
   health_estimator True [cycle_row 1 2, cycle_row 2 2, cycle_row 3 2] = Inl OverflowError \<and>
   classification True [cycle_row 1 2, cycle_row 2 2, cycle_row 3 2] = Inl OverflowError"
  by (simp add: classification_def health_estimator_def cycle_row_def iloc_last_def
      iloc_first_def soh_def LinearRegression_fit_def ols_slope_def ols_intercept_def mean_def
      remaining_cycles_def predicted_end_cycle_def np_sub_def np_div_def np_mul_def
      signed_inf_def signed_zero_def py_max0_def EOL_THRESHOLD_def trunc_toward_zero_def
      is_finite_def)

section \<open>The columns of the sensor charts\<close>

text \<open>
  Claim C9. When the log file has no column \<^verbatim>\<open>Temperature_measured\<close>, the temperature
  chart takes the first column of the file, whatever it is (for the columns
  \<^verbatim>\<open>Voltage_load, Current_load\<close> it is the voltage column); when
  \<^verbatim>\<open>Voltage_measured\<close> is absent as well, both charts take the same column.
\<close>

theorem t_col_fallback:
  "(''Temperature_measured'' \<notin> set columns \<longrightarrow>
      t_col columns = iloc_first columns \<and>
      (\<forall>c cs. columns = c # cs \<longrightarrow> t_col columns = Inr c) \<and>
      (''Voltage_measured'' \<notin> set columns \<longrightarrow> v_col columns = t_col columns)) \<and>
   t_col [''Voltage_load'', ''Current_load''] = Inr ''Voltage_load''"
  by (auto simp: t_col_def v_col_def iloc_first_def)

theorem t_col_fallback_witness:
  "''Temperature_measured'' \<notin> set [''Time'', ''Current_measured''] \<and>
   ''Voltage_measured'' \<notin> set [''Time'', ''Current_measured''] \<and>
   t_col [''Time'', ''Current_measured''] = Inr ''Time'' \<and>
   v_col [''Time'', ''Current_measured''] = Inr ''Time''"
proof -
  let ?cols = "[''Time'', ''Current_measured'']"
  have t: "''Temperature_measured'' \<notin> set ?cols"
    by simp
  have v: "''Voltage_measured'' \<notin> set ?cols"
    by simp
  note f = t_col_fallback [of ?cols]
  from f t have a: "t_col ?cols = Inr ''Time''"
    by blast
  from f t v have "v_col ?cols = t_col ?cols"
    by blast
  with a t v show ?thesis
    by simp
qed

section \<open>The least-squares fit\<close>

text \<open>
  The columns \<open>X\<close> and \<open>y\<close> of the script are two columns of one table: they are
  written \<open>map f h\<close> and \<open>map g h\<close> for the rows \<open>h\<close>.
\<close>

lemma mean_map: "mean (map f h) = (\<Sum>r\<leftarrow>h. f r) / real (length h)"
  by (simp add: mean_def)

lemma zip_map_same: "zip (map f h) (map g h) = map (\<lambda>r. (f r, g r)) h"
  by (induction h) simp_all

lemma ols_slope_map:
  "ols_slope (map f h) (map g h) = (if sxx f h = 0 then 0 else sxy f g h / sxx f h)"
  by (simp add: ols_slope_def zip_map_same sxx_def sxy_def o_def)

lemma squared_residuals_map:
  "squared_residuals (map f h) (map g h) m c = (\<Sum>r\<leftarrow>h. (g r - (m * f r + c))\<^sup>2)"
  by (simp add: squared_residuals_def zip_map_same o_def)

lemma sum_centered:
  fixes f :: "'a \<Rightarrow> real"
  assumes "h \<noteq> []"
  shows "(\<Sum>r\<leftarrow>h. f r - mean (map f h)) = 0"
  using assms by (simp add: sum_list_subtractf sum_list_triv mean_def)

text \<open>The residuals of the fitted line sum to zero.\<close>

lemma residual_sum:
  fixes f g :: "'a \<Rightarrow> real"
  assumes "h \<noteq> []"
  shows "(\<Sum>r\<leftarrow>h. g r - (m * f r + (mean (map g h) - m * mean (map f h)))) = 0"
proof -
  have "(\<Sum>r\<leftarrow>h. g r - (m * f r + (mean (map g h) - m * mean (map f h))))
      = (\<Sum>r\<leftarrow>h. (g r - mean (map g h)) - m * (f r - mean (map f h)))"
    by (simp add: algebra_simps)
  also have "\<dots> = (\<Sum>r\<leftarrow>h. g r - mean (map g h)) - m * (\<Sum>r\<leftarrow>h. f r - mean (map f h))"
    by (simp add: sum_list_subtractf sum_list_const_mult)
  finally show ?thesis
    using assms by (simp add: sum_centered)
qed

lemma sum_squares_zero:
  fixes F :: "'a \<Rightarrow> real"
  assumes "(\<Sum>r\<leftarrow>h. (F r)\<^sup>2) = 0" and "r \<in> set h"
  shows "F r = 0"
  using assms
proof (induction h)
  case Nil
  then show ?case
    by simp
next
  case (Cons a h)
  have nn: "0 \<le> (\<Sum>r\<leftarrow>h. (F r)\<^sup>2)"
    by (rule sum_list_nonneg) auto
  from Cons.prems(1) have s: "(F a)\<^sup>2 + (\<Sum>r\<leftarrow>h. (F r)\<^sup>2) = 0"
    by simp
  have a0: "(F a)\<^sup>2 = 0" and h0: "(\<Sum>r\<leftarrow>h. (F r)\<^sup>2) = 0"
    using s nn zero_le_power2 [of "F a"] by linarith+
  show ?case
    using Cons.prems(2) a0 h0 Cons.IH by auto
qed

lemma slope_normal: "sxy f g h = ols_slope (map f h) (map g h) * sxx f h"
proof (cases "sxx f h = 0")
  case True
  then have "\<And>r. r \<in> set h \<Longrightarrow> f r - mean (map f h) = 0"
    unfolding sxx_def by (rule sum_squares_zero)
  then have "sxy f g h = (\<Sum>r\<leftarrow>h. 0)"
    unfolding sxy_def by (intro arg_cong [where f = sum_list] map_cong) auto
  then show ?thesis
    using True by (simp add: ols_slope_map)
next
  case False
  then show ?thesis
    by (simp add: ols_slope_map)
qed

text \<open>The residuals of the fitted line are orthogonal to the abscissae.\<close>

lemma residual_x_sum:
  fixes f g :: "'a \<Rightarrow> real"
  assumes "h \<noteq> []"
  defines "m \<equiv> ols_slope (map f h) (map g h)"
  shows "(\<Sum>r\<leftarrow>h. (g r - (m * f r + (mean (map g h) - m * mean (map f h)))) * f r) = 0"
proof -
  let ?xb = "mean (map f h)" and ?yb = "mean (map g h)"
  let ?e = "\<lambda>r. g r - (m * f r + (?yb - m * ?xb))"
  have e0: "(\<Sum>r\<leftarrow>h. ?e r) = 0"
    using assms(1) by (rule residual_sum)
  have "(\<Sum>r\<leftarrow>h. ?e r * f r) = (\<Sum>r\<leftarrow>h. ?e r * (f r - ?xb) + ?xb * ?e r)"
    by (simp add: algebra_simps)
  also have "\<dots> = (\<Sum>r\<leftarrow>h. ?e r * (f r - ?xb)) + ?xb * (\<Sum>r\<leftarrow>h. ?e r)"
    by (simp add: sum_list_addf sum_list_const_mult)
  also have "\<dots> = (\<Sum>r\<leftarrow>h. ?e r * (f r - ?xb))"
    using e0 by simp
  also have "\<dots> = (\<Sum>r\<leftarrow>h. (f r - ?xb) * (g r - ?yb) - m * (f r - ?xb)\<^sup>2)"
    by (simp add: algebra_simps power2_eq_square)
  also have "\<dots> = sxy f g h - m * sxx f h"
    by (simp add: sum_list_subtractf sum_list_const_mult sxx_def sxy_def)
  also have "\<dots> = 0"
    using slope_normal [of f g h] by (simp add: m_def)
  finally show ?thesis .
qed

text \<open>No line has a smaller sum of squared residuals than the fitted one.\<close>

lemma ols_minimises:
  fixes f g :: "'a \<Rightarrow> real"
  shows "squared_residuals (map f h) (map g h)
           (ols_slope (map f h) (map g h)) (ols_intercept (map f h) (map g h))
       \<le> squared_residuals (map f h) (map g h) m' c'"
proof (cases "h = []")
  case True
  then show ?thesis
    by (simp add: squared_residuals_def)
next
  case False
  define m where "m = ols_slope (map f h) (map g h)"
  define c where "c = mean (map g h) - m * mean (map f h)"
  let ?e = "\<lambda>r. g r - (m * f r + c)"
  let ?d = "\<lambda>r. (m - m') * f r + (c - c')"
  have e0: "(\<Sum>r\<leftarrow>h. ?e r) = 0"
    unfolding c_def using False by (rule residual_sum)
  have ex0: "(\<Sum>r\<leftarrow>h. ?e r * f r) = 0"
    unfolding c_def m_def using False by (rule residual_x_sum)
  have "(\<Sum>r\<leftarrow>h. ?e r * ?d r) = (\<Sum>r\<leftarrow>h. (m - m') * (?e r * f r) + (c - c') * ?e r)"
    by (simp add: algebra_simps)
  also have "\<dots> = (m - m') * (\<Sum>r\<leftarrow>h. ?e r * f r) + (c - c') * (\<Sum>r\<leftarrow>h. ?e r)"
    by (simp only: sum_list_addf sum_list_const_mult)
  finally have ed0: "(\<Sum>r\<leftarrow>h. ?e r * ?d r) = 0"
    using e0 ex0 by simp
  have "(\<Sum>r\<leftarrow>h. (g r - (m' * f r + c'))\<^sup>2)
      = (\<Sum>r\<leftarrow>h. (?e r)\<^sup>2 + (2 * (?e r * ?d r) + (?d r)\<^sup>2))"
    by (intro arg_cong [where f = sum_list] map_cong refl)
      (simp add: power2_eq_square algebra_simps)
  also have "\<dots> = (\<Sum>r\<leftarrow>h. (?e r)\<^sup>2) + (2 * (\<Sum>r\<leftarrow>h. ?e r * ?d r) + (\<Sum>r\<leftarrow>h. (?d r)\<^sup>2))"
    by (simp only: sum_list_addf sum_list_const_mult)
  finally have eq: "(\<Sum>r\<leftarrow>h. (g r - (m' * f r + c'))\<^sup>2)
      = (\<Sum>r\<leftarrow>h. (?e r)\<^sup>2) + (\<Sum>r\<leftarrow>h. (?d r)\<^sup>2)"
    using ed0 by simp
  have "0 \<le> (\<Sum>r\<leftarrow>h. (?d r)\<^sup>2)"
    by (rule sum_list_nonneg) auto
  with eq have "(\<Sum>r\<leftarrow>h. (?e r)\<^sup>2) \<le> (\<Sum>r\<leftarrow>h. (g r - (m' * f r + c'))\<^sup>2)"
    by linarith
  then show ?thesis
    by (simp add: squared_residuals_map ols_intercept_def m_def c_def)
qed

section \<open>The sign of the slope\<close>

lemma sum_list_le_member:
  fixes F :: "'a \<Rightarrow> real"
  assumes "\<And>x. x \<in> set xs \<Longrightarrow> F x \<le> 0" and "p \<in> set xs"
  shows "(\<Sum>x\<leftarrow>xs. F x) \<le> F p"
  using assms
proof (induction xs)
  case Nil
  then show ?case
    by simp
next
  case (Cons a xs)
  have rest: "(\<Sum>x\<leftarrow>xs. F x) \<le> 0"
    by (rule sum_list_nonpos) (use Cons.prems(1) in auto)
  show ?case
  proof (cases "p = a")
    case True
    then show ?thesis
      using rest by simp
  next
    case False
    then have "p \<in> set xs"
      using Cons.prems(2) by simp
    then have "(\<Sum>x\<leftarrow>xs. F x) \<le> F p"
      using Cons.IH Cons.prems(1) by simp
    moreover have "F a \<le> 0"
      using Cons.prems(1) by simp
    ultimately show ?thesis
      by simp
  qed
qed

lemma sxy_expand:
  fixes f g :: "'a \<Rightarrow> real"
  assumes "h \<noteq> []"
  shows "real (length h) * sxy f g h
       = real (length h) * (\<Sum>r\<leftarrow>h. f r * g r) - (\<Sum>r\<leftarrow>h. f r) * (\<Sum>r\<leftarrow>h. g r)"
proof -
  let ?n = "real (length h)" and ?xb = "mean (map f h)" and ?yb = "mean (map g h)"
  have n: "?n \<noteq> 0"
    using assms by simp
  have "sxy f g h = (\<Sum>r\<leftarrow>h. f r * g r - ?xb * g r - ?yb * f r + ?xb * ?yb)"
    unfolding sxy_def by (simp add: algebra_simps)
  also have "\<dots> = (\<Sum>r\<leftarrow>h. f r * g r) - ?xb * (\<Sum>r\<leftarrow>h. g r) - ?yb * (\<Sum>r\<leftarrow>h. f r)
      + ?n * (?xb * ?yb)"
    by (simp add: sum_list_addf sum_list_subtractf sum_list_const_mult sum_list_triv)
  finally have "sxy f g h = (\<Sum>r\<leftarrow>h. f r * g r) - ?xb * (\<Sum>r\<leftarrow>h. g r)
      - ?yb * (\<Sum>r\<leftarrow>h. f r) + ?n * (?xb * ?yb)" .
  then show ?thesis
    using n by (simp add: mean_map field_simps)
qed

text \<open>The covariance as a sum over all pairs of rows.\<close>

lemma pairs_sum:
  fixes f g :: "'a \<Rightarrow> real"
  shows "(\<Sum>p\<leftarrow>h. \<Sum>q\<leftarrow>h. (f p - f q) * (g p - g q))
       = 2 * (real (length h) * (\<Sum>r\<leftarrow>h. f r * g r) - (\<Sum>r\<leftarrow>h. f r) * (\<Sum>r\<leftarrow>h. g r))"
proof -
  let ?n = "real (length h)"
  let ?Sf = "(\<Sum>r\<leftarrow>h. f r)" and ?Sg = "(\<Sum>r\<leftarrow>h. g r)" and ?Sfg = "(\<Sum>r\<leftarrow>h. f r * g r)"
  have inner: "(\<Sum>q\<leftarrow>h. (f p - f q) * (g p - g q))
      = ?n * (f p * g p) - f p * ?Sg - g p * ?Sf + ?Sfg" for p
  proof -
    have "(\<Sum>q\<leftarrow>h. (f p - f q) * (g p - g q))
        = (\<Sum>q\<leftarrow>h. f p * g p - f p * g q - g p * f q + f q * g q)"
      by (simp add: algebra_simps)
    also have "\<dots> = ?n * (f p * g p) - f p * ?Sg - g p * ?Sf + ?Sfg"
      by (simp add: sum_list_addf sum_list_subtractf sum_list_const_mult sum_list_triv)
    finally show ?thesis .
  qed
  have "(\<Sum>p\<leftarrow>h. \<Sum>q\<leftarrow>h. (f p - f q) * (g p - g q))
      = (\<Sum>p\<leftarrow>h. ?n * (f p * g p) - f p * ?Sg - g p * ?Sf + ?Sfg)"
    by (simp only: inner)
  also have "\<dots> = (\<Sum>p\<leftarrow>h. ?n * (f p * g p) - ?Sg * f p - ?Sf * g p + ?Sfg)"
    by (simp only: mult.commute)
  also have "\<dots> = ?n * ?Sfg - ?Sg * ?Sf - ?Sf * ?Sg + ?n * ?Sfg"
    by (simp add: sum_list_addf sum_list_subtractf sum_list_const_mult sum_list_triv)
  finally show ?thesis
    by (simp add: algebra_simps)
qed

lemma sxy_negative:
  fixes f g :: "'a \<Rightarrow> real"
  assumes anti: "\<And>p q. p \<in> set h \<Longrightarrow> q \<in> set h \<Longrightarrow> (f p - f q) * (g p - g q) \<le> 0"
    and p0: "p0 \<in> set h" and q0: "q0 \<in> set h"
    and strict: "(f p0 - f q0) * (g p0 - g q0) < 0"
  shows "sxy f g h < 0"
proof -
  have ne: "h \<noteq> []"
    using p0 by auto
  let ?T = "\<lambda>p q. (f p - f q) * (g p - g q)"
  have inner_le: "(\<Sum>q\<leftarrow>h. ?T p q) \<le> 0" if "p \<in> set h" for p
    by (rule sum_list_nonpos) (use anti that in auto)
  have "(\<Sum>p\<leftarrow>h. \<Sum>q\<leftarrow>h. ?T p q) \<le> (\<Sum>q\<leftarrow>h. ?T p0 q)"
    by (rule sum_list_le_member [where F = "\<lambda>p. \<Sum>q\<leftarrow>h. ?T p q"]) (use inner_le p0 in auto)
  also have "\<dots> \<le> ?T p0 q0"
    by (rule sum_list_le_member [where F = "\<lambda>q. ?T p0 q"]) (use anti p0 q0 in auto)
  finally have "(\<Sum>p\<leftarrow>h. \<Sum>q\<leftarrow>h. ?T p q) < 0"
    using strict by linarith
  then have "real (length h) * sxy f g h < 0"
    by (simp add: pairs_sum sxy_expand [OF ne])
  moreover have "0 < real (length h)"
    using ne by simp
  ultimately show ?thesis
    by (simp add: mult_less_0_iff)
qed

lemma sxx_positive:
  fixes f :: "'a \<Rightarrow> real"
  assumes "p0 \<in> set h" and "q0 \<in> set h" and "f p0 \<noteq> f q0"
  shows "0 < sxx f h"
proof -
  have nn: "0 \<le> sxx f h"
    unfolding sxx_def by (rule sum_list_nonneg) auto
  have "sxx f h \<noteq> 0"
  proof
    assume z: "sxx f h = 0"
    have "f r - mean (map f h) = 0" if "r \<in> set h" for r
      using z that unfolding sxx_def by (rule sum_squares_zero)
    from this [OF assms(1)] this [OF assms(2)] assms(3) show False
      by simp
  qed
  with nn show ?thesis
    by simp
qed

lemma opposite_order:
  fixes f g :: "'a \<Rightarrow> real"
  assumes inc: "sorted_wrt (<) (map f h)" and dec: "sorted_wrt (>) (map g h)"
    and p: "p \<in> set h" and q: "q \<in> set h"
  shows "(f p - f q) * (g p - g q) \<le> 0"
proof -
  from p obtain i where i: "i < length h" "h ! i = p"
    by (auto simp: in_set_conv_nth)
  from q obtain j where j: "j < length h" "h ! j = q"
    by (auto simp: in_set_conv_nth)
  have lt: "f (h ! a) < f (h ! b) \<and> g (h ! b) < g (h ! a)" if "a < b" "b < length h" for a b
    using sorted_wrt_nth_less [OF inc, of a b] sorted_wrt_nth_less [OF dec, of a b] that
    by simp
  consider "i < j" | "i = j" | "j < i"
    by linarith
  then show ?thesis
  proof cases
    case 1
    with lt [of i j] i j show ?thesis
      by (simp add: mult_le_0_iff)
  next
    case 2
    with i j show ?thesis
      by simp
  next
    case 3
    with lt [of j i] i j show ?thesis
      by (simp add: mult_le_0_iff)
  qed
qed

text \<open>
  Increasing abscissae and strictly decreasing ordinates, on two rows or more, give a
  negative slope.
\<close>

lemma slope_negative:
  fixes f g :: "'a \<Rightarrow> real"
  assumes inc: "sorted_wrt (<) (map f h)" and dec: "sorted_wrt (>) (map g h)"
    and len: "2 \<le> length h"
  shows "ols_slope (map f h) (map g h) < 0"
proof -
  have l0: "0 < length h" and l1: "1 < length h"
    using len by linarith+
  have p0: "h ! 0 \<in> set h" and q0: "h ! 1 \<in> set h"
    using l0 l1 by (simp_all del: One_nat_def)
  have f01: "f (h ! 0) < f (h ! 1)"
    using sorted_wrt_nth_less [OF inc, of 0 1] l0 l1 by simp
  have g01: "g (h ! 1) < g (h ! 0)"
    using sorted_wrt_nth_less [OF dec, of 0 1] l0 l1 by simp
  have strict: "(f (h ! 0) - f (h ! 1)) * (g (h ! 0) - g (h ! 1)) < 0"
    using f01 g01 by (simp add: mult_less_0_iff)
  have "sxy f g h < 0"
    by (rule sxy_negative [OF opposite_order [OF inc dec] p0 q0 strict])
  moreover have "0 < sxx f h"
    by (rule sxx_positive [OF p0 q0]) (use f01 in simp)
  ultimately show ?thesis
    by (simp add: ols_slope_map divide_neg_pos)
qed

lemma mean_le:
  fixes f :: "'a \<Rightarrow> real"
  assumes "h \<noteq> []" and "\<And>r. r \<in> set h \<Longrightarrow> f r \<le> b"
  shows "mean (map f h) \<le> b"
proof -
  have "(\<Sum>r\<leftarrow>h. f r) \<le> (\<Sum>r\<leftarrow>h. b)"
    by (rule sum_list_mono) (use assms in auto)
  then have "(\<Sum>r\<leftarrow>h. f r) \<le> real (length h) * b"
    by (simp add: sum_list_triv)
  then show ?thesis
    using assms(1) by (simp add: mean_map field_simps)
qed

lemma mean_gt:
  fixes f :: "'a \<Rightarrow> real"
  assumes "h \<noteq> []" and "\<And>r. r \<in> set h \<Longrightarrow> b < f r"
  shows "b < mean (map f h)"
proof -
  have "(\<Sum>r\<leftarrow>h. b) < (\<Sum>r\<leftarrow>h. f r)"
    by (rule sum_list_strict_mono) (use assms in auto)
  then have "real (length h) * b < (\<Sum>r\<leftarrow>h. f r)"
    by (simp add: sum_list_triv)
  then show ?thesis
    using assms(1) by (simp add: mean_map field_simps)
qed

section \<open>The estimator on a slope other than zero\<close>

lemma np_sub_Fin: "np_sub (Fin a) (Fin b) = Fin (a - b)"
  by (simp add: np_sub_def signed_zero_def)

lemma np_div_Fin:
  "m \<noteq> 0 \<Longrightarrow> np_div (Fin d) (Fin m) = (if d = 0 then signed_zero (m < 0) else Fin (d / m))"
  by (simp add: np_div_def)

lemma clamp_trunc_Fin: "py_int (py_max0 (Fin q)) = Inr (trunc_toward_zero (max 0 q))"
  by (simp add: py_max0_def max_def)

lemma clamp_trunc_NegZero:
  "py_int (py_max0 (np_sub NegZero (Fin k))) = Inr (trunc_toward_zero (max 0 (0 - k)))"
  by (simp add: np_sub_def signed_zero_def py_max0_def max_def trunc_toward_zero_def)

lemma predicted_end_cycle_Fin:
  "m \<noteq> 0 \<Longrightarrow> is_finite (predicted_end_cycle (Fin m) (Fin c))"
  by (simp add: predicted_end_cycle_def np_sub_Fin np_div_Fin signed_zero_def is_finite_def)

lemma remaining_cycles_Fin:
  assumes "m \<noteq> 0"
  shows "remaining_cycles (Fin m) (Fin c) k =
     Inr (trunc_toward_zero (max 0 ((EOL_THRESHOLD - c) / m - of_int k)))"
proof (cases "EOL_THRESHOLD - c = 0")
  case True
  then show ?thesis
    using assms
    by (cases "m < 0")
      (simp_all add: remaining_cycles_def predicted_end_cycle_def np_sub_Fin np_div_Fin
        signed_zero_def clamp_trunc_Fin clamp_trunc_NegZero)
next
  case False
  then show ?thesis
    using assms
    by (simp add: remaining_cycles_def predicted_end_cycle_def np_sub_Fin np_div_Fin
        clamp_trunc_Fin)
qed

lemma trunc_clamp_nonneg: "0 \<le> trunc_toward_zero (max 0 x)"
  by (simp add: trunc_toward_zero_def)

lemma health_estimator_nonzero_slope:
  assumes ne: "history \<noteq> []"
    and m: "ols_slope (map (\<lambda>r. real (cycle r)) history) (map Capacity history) \<noteq> 0"
  shows "health_estimator nz history =
     Inr \<lparr>est_soh = np_mul (np_div (Fin (Capacity (last history)))
                                  (Fin (Capacity (hd history)))) (Fin 100),
          est_latest_capacity = Capacity (last history),
          est_slope = Fin (ols_slope (map (\<lambda>r. real (cycle r)) history) (map Capacity history)),
          est_intercept =
            Fin (ols_intercept (map (\<lambda>r. real (cycle r)) history) (map Capacity history)),
          est_remaining_cycles = trunc_toward_zero (max 0
            ((EOL_THRESHOLD
                - ols_intercept (map (\<lambda>r. real (cycle r)) history) (map Capacity history))
               / ols_slope (map (\<lambda>r. real (cycle r)) history) (map Capacity history)
             - real (cycle (last history))))\<rparr>"
  using ne m
  by (simp add: health_estimator_def iloc_last_def soh_nonempty LinearRegression_fit_def
      Let_def remaining_cycles_Fin last_map)

lemma health_estimator_fit:
  assumes "health_estimator nz history = Inr est"
  shows "fval (est_slope est)
           = ols_slope (map (\<lambda>r. real (cycle r)) history) (map Capacity history)
       \<and> fval (est_intercept est)
           = ols_intercept (map (\<lambda>r. real (cycle r)) history) (map Capacity history)"
  using assms
  by (auto simp: health_estimator_def LinearRegression_fit_def Let_def
      split: sum.splits prod.splits if_splits)

lemma contiguous_sorted:
  assumes "contiguous_cycles history"
  shows "sorted_wrt (<) (map (\<lambda>r. real (cycle r)) history)"
proof -
  have "map (\<lambda>r. real (cycle r)) history = map real (map cycle history)"
    by simp
  also have "\<dots> = map real [1..<Suc (length history)]"
    using assms by (simp only: contiguous_cycles_def)
  finally show ?thesis
    by (simp add: sorted_wrt_map del: upt_Suc)
qed

lemma contiguous_le_last:
  assumes c: "contiguous_cycles history" and r: "r \<in> set history"
  shows "cycle r \<le> cycle (last history)"
proof -
  have ne: "history \<noteq> []"
    using r by auto
  have "cycle r \<in> set (map cycle history)"
    using r by simp
  then have "cycle r \<in> set [1..<Suc (length history)]"
    using c by (simp only: contiguous_cycles_def)
  then have le: "cycle r \<le> length history"
    by (simp del: upt_Suc)
  have "cycle (last history) = last (map cycle history)"
    using ne by (simp add: last_map)
  also have "\<dots> = last [1..<Suc (length history)]"
    using c by (simp only: contiguous_cycles_def)
  also have "\<dots> = length history"
    using ne by (simp add: Suc_le_eq)
  finally show ?thesis
    using le by simp
qed

lemma ols_slope_Nil: "ols_slope [] y = 0"
  by (simp add: ols_slope_def)

section \<open>The trend fit of the script\<close>

text \<open>
  Claim C4. The slope and intercept of the closed form minimise the sum of squared
  residuals over all rows of the history, and they are the slope and intercept of every
  estimate the script produces: the fit is over the entire history. On the history
  \<^verbatim>\<open>[(1, 2.0), (2, 1.8), (3, 1.6)]\<close> the slope is \<open>-0.2\<close>, the intercept \<open>2.2\<close>, the
  predicted end cycle 4, one cycle remains, and the alert is URGENT.
\<close>

theorem trend_fit_least_squares:
  "(\<forall>m' c'.
      squared_residuals (map (\<lambda>r. real (cycle r)) history) (map Capacity history)
        (ols_slope (map (\<lambda>r. real (cycle r)) history) (map Capacity history))
        (ols_intercept (map (\<lambda>r. real (cycle r)) history) (map Capacity history))
      \<le> squared_residuals (map (\<lambda>r. real (cycle r)) history) (map Capacity history) m' c') \<and>
   (\<forall>est. health_estimator nz history = Inr est \<longrightarrow>
      fval (est_slope est)
        = ols_slope (map (\<lambda>r. real (cycle r)) history) (map Capacity history) \<and>
      fval (est_intercept est)
        = ols_intercept (map (\<lambda>r. real (cycle r)) history) (map Capacity history)) \<and>
   health_estimator nz [cycle_row 1 2, cycle_row 2 (18 / 10), cycle_row 3 (16 / 10)] =
     Inr \<lparr>est_soh = Fin 80, est_latest_capacity = 16 / 10, est_slope = Fin (- 1 / 5),
          est_intercept = Fin (11 / 5), est_remaining_cycles = 1\<rparr> \<and>
   predicted_end_cycle (Fin (- 1 / 5)) (Fin (11 / 5)) = Fin 4 \<and>
   classification nz [cycle_row 1 2, cycle_row 2 (18 / 10), cycle_row 3 (16 / 10)] = Inr URGENT"
proof -
  let ?s = "[cycle_row 1 2, cycle_row 2 (18 / 10), cycle_row 3 (16 / 10)]"
  have est: "health_estimator nz ?s =
     Inr \<lparr>est_soh = Fin 80, est_latest_capacity = 16 / 10, est_slope = Fin (- 1 / 5),
          est_intercept = Fin (11 / 5), est_remaining_cycles = 1\<rparr>"
    by (simp add: health_estimator_def cycle_row_def iloc_last_def iloc_first_def soh_def
        LinearRegression_fit_def ols_slope_def ols_intercept_def mean_def remaining_cycles_def
        predicted_end_cycle_def np_sub_def np_div_def np_mul_def signed_inf_def
        signed_zero_def py_max0_def EOL_THRESHOLD_def trunc_toward_zero_def power2_eq_square)
  have pred: "predicted_end_cycle (Fin (- 1 / 5)) (Fin (11 / 5)) = Fin 4"
    by (simp add: predicted_end_cycle_def np_sub_def np_div_def EOL_THRESHOLD_def)
  have fin: "is_finite (predicted_end_cycle (Fin (- 1 / 5)) (Fin (11 / 5)))"
    unfolding pred by (simp add: is_finite_def)
  have cls: "classification nz ?s = Inr URGENT"
    unfolding classification_def est using fin by (simp add: alert_of_def)
  show ?thesis
    using ols_minimises [of "\<lambda>r. real (cycle r)" history Capacity]
      health_estimator_fit [of nz history] est pred cls
    by blast
qed

theorem trend_fit_least_squares_witness:
  "health_estimator False [cycle_row 1 2, cycle_row 2 (18 / 10), cycle_row 3 (16 / 10)] =
     Inr \<lparr>est_soh = Fin 80, est_latest_capacity = 16 / 10, est_slope = Fin (- 1 / 5),
          est_intercept = Fin (11 / 5), est_remaining_cycles = 1\<rparr> \<and>
   ols_slope [1, 2, 3] [2, 18 / 10, 16 / 10] = - 1 / 5 \<and>
   ols_intercept [1, 2, 3] [2, 18 / 10, 16 / 10] = 11 / 5 \<and>
   squared_residuals [1, 2, 3] [2, 18 / 10, 16 / 10] (- 1 / 5) (11 / 5)
     \<le> squared_residuals [1, 2, 3] [2, 18 / 10, 16 / 10] 0 2"
proof -
  let ?s = "[cycle_row 1 2, cycle_row 2 (18 / 10), cycle_row 3 (16 / 10)]"
  let ?e = "\<lparr>est_soh = Fin 80, est_latest_capacity = 16 / 10, est_slope = Fin (- 1 / 5),
          est_intercept = Fin (11 / 5), est_remaining_cycles = 1\<rparr>"
  have X: "map (\<lambda>r. real (cycle r)) ?s = [1, 2, 3]"
    by (simp add: cycle_row_def)
  have y: "map Capacity ?s = [2, 18 / 10, 16 / 10]"
    by (simp add: cycle_row_def)
  note f = trend_fit_least_squares [of ?s False]
  from f have est: "health_estimator False ?s = Inr ?e"
    by blast
  from f est have "fval (est_slope ?e) = ols_slope (map (\<lambda>r. real (cycle r)) ?s) (map Capacity ?s)
      \<and> fval (est_intercept ?e)
          = ols_intercept (map (\<lambda>r. real (cycle r)) ?s) (map Capacity ?s)"
    by blast
  then have m: "ols_slope [1, 2, 3] [2, 18 / 10, 16 / 10] = - 1 / 5"
    and c: "ols_intercept [1, 2, 3] [2, 18 / 10, 16 / 10] = 11 / 5"
    by (simp_all only: X y health_estimate.simps fval.simps)
  from f have "squared_residuals (map (\<lambda>r. real (cycle r)) ?s) (map Capacity ?s)
        (ols_slope (map (\<lambda>r. real (cycle r)) ?s) (map Capacity ?s))
        (ols_intercept (map (\<lambda>r. real (cycle r)) ?s) (map Capacity ?s))
      \<le> squared_residuals (map (\<lambda>r. real (cycle r)) ?s) (map Capacity ?s) 0 2"
    by blast
  then have "squared_residuals [1, 2, 3] [2, 18 / 10, 16 / 10] (- 1 / 5) (11 / 5)
     \<le> squared_residuals [1, 2, 3] [2, 18 / 10, 16 / 10] 0 2"
    by (simp only: X y m c)
  with est m c show ?thesis
    by blast
qed

section \<open>Strictly decreasing capacity\<close>

text \<open>
  Claim C6. On a battery history of two records or more (cycles \<open>1, \<dots>, N\<close>) whose
  capacity decreases strictly from each record to the next, the estimator returns, and
  the remaining cycles it reports are an integer that is not negative.
\<close>

theorem decreasing_capacity_remaining_cycles:
  "2 \<le> length history \<and> contiguous_cycles history \<and>
   sorted_wrt (>) (map Capacity history) \<longrightarrow>
     (\<exists>est. health_estimator nz history = Inr est \<and> 0 \<le> est_remaining_cycles est)"
proof (intro impI, elim conjE)
  assume len: "2 \<le> length history" and c: "contiguous_cycles history"
    and d: "sorted_wrt (>) (map Capacity history)"
  have ne: "history \<noteq> []"
    using len by auto
  have "ols_slope (map (\<lambda>r. real (cycle r)) history) (map Capacity history) < 0"
    by (rule slope_negative [OF contiguous_sorted [OF c] d len])
  then have m: "ols_slope (map (\<lambda>r. real (cycle r)) history) (map Capacity history) \<noteq> 0"
    by simp
  show "\<exists>est. health_estimator nz history = Inr est \<and> 0 \<le> est_remaining_cycles est"
    by (simp add: health_estimator_nonzero_slope [OF ne m] trunc_clamp_nonneg)
qed

theorem decreasing_capacity_remaining_cycles_witness:
  "2 \<le> length [cycle_row 1 2, cycle_row 2 (19 / 10)] \<and>
   contiguous_cycles [cycle_row 1 2, cycle_row 2 (19 / 10)] \<and>
   sorted_wrt (>) (map Capacity [cycle_row 1 2, cycle_row 2 (19 / 10)]) \<and>
   (\<exists>est. health_estimator False [cycle_row 1 2, cycle_row 2 (19 / 10)] = Inr est \<and>
      0 \<le> est_remaining_cycles est)"
proof -
  let ?h = "[cycle_row 1 2, cycle_row 2 (19 / 10)]"
  have len: "2 \<le> length ?h"
    by simp
  have c: "contiguous_cycles ?h"
    by (simp add: contiguous_cycles_def cycle_row_def)
  have d: "sorted_wrt (>) (map Capacity ?h)"
    by (simp add: cycle_row_def)
  from decreasing_capacity_remaining_cycles [of ?h False] len c d
  have "\<exists>est. health_estimator False ?h = Inr est \<and> 0 \<le> est_remaining_cycles est"
    by blast
  with len c d show ?thesis
    by blast
qed

section \<open>A rising trend above the threshold\<close>

text \<open>
  Claim C10. On a battery history (cycles \<open>1, \<dots>, N\<close>) whose fitted slope is strictly
  positive and whose capacities are all strictly above \<open>EOL_THRESHOLD\<close>, the fitted
  line crosses the threshold before the current cycle: the estimator reports 0
  remaining cycles and the alert is URGENT.
\<close>

theorem rising_trend_urgent:
  "contiguous_cycles history \<and>
   0 < ols_slope (map (\<lambda>r. real (cycle r)) history) (map Capacity history) \<and>
   (\<forall>r\<in>set history. EOL_THRESHOLD < Capacity r) \<longrightarrow>
     (\<exists>est. health_estimator nz history = Inr est \<and> est_remaining_cycles est = 0) \<and>
     classification nz history = Inr URGENT"
proof (intro impI, elim conjE)
  let ?X = "map (\<lambda>r. real (cycle r)) history" and ?y = "map Capacity history"
  assume c: "contiguous_cycles history" and pos: "0 < ols_slope ?X ?y"
    and above: "\<forall>r\<in>set history. EOL_THRESHOLD < Capacity r"
  have ne: "history \<noteq> []"
    using pos by (auto simp: ols_slope_Nil)
  have m: "ols_slope ?X ?y \<noteq> 0"
    using pos by simp
  have xb: "mean ?X \<le> real (cycle (last history))"
    by (rule mean_le [OF ne]) (use contiguous_le_last [OF c] in simp)
  have yb: "EOL_THRESHOLD < mean ?y"
    by (rule mean_gt [OF ne]) (use above in simp)
  have "(EOL_THRESHOLD - ols_intercept ?X ?y) / ols_slope ?X ?y
      = (EOL_THRESHOLD - mean ?y) / ols_slope ?X ?y + mean ?X"
    using m by (simp add: ols_intercept_def field_simps)
  moreover have "(EOL_THRESHOLD - mean ?y) / ols_slope ?X ?y < 0"
    using yb pos by (simp add: divide_neg_pos)
  ultimately have neg:
    "(EOL_THRESHOLD - ols_intercept ?X ?y) / ols_slope ?X ?y - real (cycle (last history)) < 0"
    using xb by linarith
  have rc: "trunc_toward_zero (max 0
      ((EOL_THRESHOLD - ols_intercept ?X ?y) / ols_slope ?X ?y - real (cycle (last history))))
      = 0"
    using neg by (simp add: max_def trunc_toward_zero_def)
  show "(\<exists>est. health_estimator nz history = Inr est \<and> est_remaining_cycles est = 0) \<and>
      classification nz history = Inr URGENT"
    by (simp add: classification_def health_estimator_nonzero_slope [OF ne m] rc alert_of_def
        predicted_end_cycle_Fin [OF m])
qed

theorem rising_trend_urgent_witness:
  "contiguous_cycles [cycle_row 1 2, cycle_row 2 (21 / 10)] \<and>
   0 < ols_slope (map (\<lambda>r. real (cycle r)) [cycle_row 1 2, cycle_row 2 (21 / 10)])
         (map Capacity [cycle_row 1 2, cycle_row 2 (21 / 10)]) \<and>
   EOL_THRESHOLD < Capacity (cycle_row 1 2) \<and> EOL_THRESHOLD < Capacity (cycle_row 2 (21 / 10)) \<and>
   (\<exists>est. health_estimator False [cycle_row 1 2, cycle_row 2 (21 / 10)] = Inr est \<and>
      est_remaining_cycles est = 0) \<and>
   classification False [cycle_row 1 2, cycle_row 2 (21 / 10)] = Inr URGENT"
proof -
  let ?h = "[cycle_row 1 2, cycle_row 2 (21 / 10)]"
  have c: "contiguous_cycles ?h"
    by (simp add: contiguous_cycles_def cycle_row_def)
  have pos: "0 < ols_slope (map (\<lambda>r. real (cycle r)) ?h) (map Capacity ?h)"
    by (simp add: cycle_row_def ols_slope_def mean_def power2_eq_square)
  have a1: "EOL_THRESHOLD < Capacity (cycle_row 1 2)"
    and a2: "EOL_THRESHOLD < Capacity (cycle_row 2 (21 / 10))"
    by (simp_all add: cycle_row_def EOL_THRESHOLD_def)
  then have above: "\<forall>r\<in>set ?h. EOL_THRESHOLD < Capacity r"
    by simp
  from rising_trend_urgent [of ?h False] c pos above
  have "(\<exists>est. health_estimator False ?h = Inr est \<and> est_remaining_cycles est = 0) \<and>
      classification False ?h = Inr URGENT"
    by blast
  with c pos a1 a2 show ?thesis
    by blast
qed

section \<open>Ingestion\<close>

lemma length_cumcount_from: "length (cumcount_from seen ks) = length ks"
  by (induction ks arbitrary: seen) simp_all

lemma with_cycle_fields [simp]:
  "battery_id (with_cycle r n) = battery_id r"
  "test_id (with_cycle r n) = test_id r"
  "type (with_cycle r n) = type r"
  "Capacity (with_cycle r n) = Capacity r"
  "cycle (with_cycle r n) = n"
  by (simp_all add: with_cycle_def)

lemma truncate_with_cycle: "test_record.truncate (with_cycle r n) = r"
  by (simp add: with_cycle_def test_record.truncate_def)

text \<open>
  The cycle numbers of one battery: when \<open>seen\<close> already holds \<open>k\<close> rows of the
  battery, its rows in \<open>rs\<close> are numbered \<open>k + 1, k + 2, \<dots>\<close> in their order.
\<close>

lemma cycles_of_group:
  "map cycle (filter (\<lambda>r. battery_id r = b)
       (map2 with_cycle rs (map (\<lambda>n. n + 1) (cumcount_from seen (map battery_id rs)))))
   = [Suc (count_list seen b) ..<
       Suc (count_list seen b + length (filter (\<lambda>r. battery_id r = b) rs))]"
proof (induction rs arbitrary: seen)
  case Nil
  then show ?case
    by simp
next
  case (Cons r rs)
  show ?case
  proof (cases "battery_id r = b")
    case True
    then show ?thesis
      using Cons.IH [of "battery_id r # seen"] by (simp add: upt_conv_Cons del: upt_Suc)
  next
    case False
    then show ?thesis
      using Cons.IH [of "battery_id r # seen"] by simp
  qed
qed

lemma rows_of_group:
  "length ns = length rs \<Longrightarrow>
   map test_record.truncate (filter (\<lambda>r. battery_id r = b) (map2 with_cycle rs ns))
     = filter (\<lambda>r. battery_id r = b) rs"
  by (induction rs ns rule: list_induct2') (simp_all add: truncate_with_cycle)

lemma keys_with_cycle:
  "length ns = length rs \<Longrightarrow>
   map (\<lambda>r. (battery_id r, test_id r)) (map2 with_cycle rs ns)
     = map (\<lambda>r. (battery_id r, test_id r)) rs"
  by (induction rs ns rule: list_induct2') simp_all

lemma kept_rows:
  "filter (\<lambda>r. battery_id r = b)
     (List.map_filter discharge_dropna (map (coerce_Capacity to_numeric) csv))
   = List.map_filter
       (\<lambda>r. if type r = ''discharge'' \<and> battery_id r = b
            then map_option
                   (\<lambda>v. \<lparr>battery_id = b, test_id = test_id r, type = ''discharge'',
                         Capacity = v\<rparr>)
                   (to_numeric (Capacity r))
            else None) csv"
  by (induction csv)
    (auto simp: List.map_filter_simps discharge_dropna_def coerce_Capacity_def
      split: option.splits)

text \<open>
  Claim C7. For every metadata table, parser and battery \<open>b\<close>, the history of \<open>b\<close> in
  the health table holds only rows of \<open>b\<close> of type \<^verbatim>\<open>discharge\<close>; without the cycle
  column its rows are exactly the rows of the table that belong to \<open>b\<close>, have the type
  \<^verbatim>\<open>discharge\<close> and a capacity that the parser turns into a number, with that number
  as capacity (a row the parser rejects is dropped, none is given a default). The
  health table is in ascending order of \<open>(battery_id, test_id)\<close>, so the history is in
  ascending order of \<open>test_id\<close>, and the cycle numbers of the history are
  \<open>1, 2, \<dots>, N\<close> in this order.
\<close>

theorem ingestion_histories:
  "(\<forall>r\<in>set (b_history (snd (load_metadata to_numeric csv)) b).
      battery_id r = b \<and> type r = ''discharge'') \<and>
   mset (map test_record.truncate (b_history (snd (load_metadata to_numeric csv)) b)) =
     mset (List.map_filter
       (\<lambda>r. if type r = ''discharge'' \<and> battery_id r = b
            then map_option
                   (\<lambda>v. \<lparr>battery_id = b, test_id = test_id r, type = ''discharge'',
                         Capacity = v\<rparr>)
                   (to_numeric (Capacity r))
            else None) csv) \<and>
   sorted (map (\<lambda>r. (battery_id r, test_id r)) (snd (load_metadata to_numeric csv))) \<and>
   sorted (map test_id (b_history (snd (load_metadata to_numeric csv)) b)) \<and>
   map cycle (b_history (snd (load_metadata to_numeric csv)) b) =
     [1..<Suc (length (b_history (snd (load_metadata to_numeric csv)) b))]"
proof -
  define H where "H = sort_key (\<lambda>r. (battery_id r, test_id r))
      (List.map_filter discharge_dropna (map (coerce_Capacity to_numeric) csv))"
  define ns where "ns = map (\<lambda>n. n + 1) (cumcount (map battery_id H))"
  define hist where "hist = b_history (snd (load_metadata to_numeric csv)) b"
  let ?kept = "List.map_filter
       (\<lambda>r. if type r = ''discharge'' \<and> battery_id r = b
            then map_option
                   (\<lambda>v. \<lparr>battery_id = b, test_id = test_id r, type = ''discharge'',
                         Capacity = v\<rparr>)
                   (to_numeric (Capacity r))
            else None) csv"
  have hd: "snd (load_metadata to_numeric csv) = map2 with_cycle H ns"
    by (simp add: load_metadata_def Let_def H_def ns_def)
  have hist: "hist = filter (\<lambda>r. battery_id r = b) (map2 with_cycle H ns)"
    by (simp add: hist_def b_history_def hd)
  have len: "length ns = length H"
    by (simp add: ns_def cumcount_def length_cumcount_from)
  have trunc: "map test_record.truncate hist = filter (\<lambda>r. battery_id r = b) H"
    unfolding hist by (rule rows_of_group [OF len])
  have m: "mset (map test_record.truncate hist) = mset ?kept"
  proof -
    have "mset (filter (\<lambda>r. battery_id r = b) H)
        = mset (filter (\<lambda>r. battery_id r = b)
            (List.map_filter discharge_dropna (map (coerce_Capacity to_numeric) csv)))"
      by (simp add: H_def)
    then show ?thesis
      by (simp only: trunc kept_rows)
  qed
  have members: "battery_id r = b \<and> type r = ''discharge''" if "r \<in> set hist" for r
  proof -
    have b: "battery_id r = b"
      using that by (simp add: hist)
    have "test_record.truncate r \<in> set (map test_record.truncate hist)"
      using that by simp
    then have "test_record.truncate r \<in># mset ?kept"
      by (simp only: m [symmetric] set_mset_mset)
    then have "test_record.truncate r \<in> set ?kept"
      by simp
    then have "type (test_record.truncate r) = ''discharge''"
      by (auto simp: List.map_filter_def split: if_splits)
    then have "type r = ''discharge''"
      by (simp add: test_record.truncate_def)
    with b show ?thesis
      by simp
  qed
  have sorted_all: "sorted (map (\<lambda>r. (battery_id r, test_id r)) (map2 with_cycle H ns))"
    by (simp only: keys_with_cycle [OF len]) (simp add: H_def)
  have "sorted (map (\<lambda>r. (battery_id r, test_id r)) hist)"
    unfolding hist by (rule sorted_filter [OF sorted_all])
  then have "sorted_wrt (\<lambda>x y. (battery_id x, test_id x) \<le> (battery_id y, test_id y)) hist"
    by (simp add: sorted_map)
  then have "sorted_wrt (\<lambda>x y. test_id x \<le> test_id y) hist"
    by (rule sorted_wrt_mono_rel [rotated]) (use members in \<open>auto simp: less_eq_prod_def\<close>)
  then have sorted_hist: "sorted (map test_id hist)"
    by (simp add: sorted_map)
  have "map cycle hist = [Suc 0 ..< Suc (length (filter (\<lambda>r. battery_id r = b) H))]"
    unfolding hist ns_def cumcount_def by (simp only: cycles_of_group) simp
  moreover have "length (filter (\<lambda>r. battery_id r = b) H) = length hist"
    using arg_cong [OF trunc, of length] by simp
  ultimately have cyc: "map cycle hist = [1..<Suc (length hist)]"
    by simp
  from sorted_all have sorted_df:
    "sorted (map (\<lambda>r. (battery_id r, test_id r)) (snd (load_metadata to_numeric csv)))"
    by (simp only: hd)
  show ?thesis
    unfolding hist_def [symmetric] using members m sorted_df sorted_hist cyc by blast
qed

theorem ingestion_histories_witness:
  "b_history (snd (load_metadata sample_to_numeric sample_csv)) ''B0005'' =
     [\<lparr>battery_id = ''B0005'', test_id = 1, type = ''discharge'', Capacity = 2, cycle = 1\<rparr>,
      \<lparr>battery_id = ''B0005'', test_id = 4, type = ''discharge'', Capacity = 16 / 10,
        cycle = 2\<rparr>] \<and>
   hd (b_history (snd (load_metadata sample_to_numeric sample_csv)) ''B0005'')
     \<in> set (b_history (snd (load_metadata sample_to_numeric sample_csv)) ''B0005'') \<and>
   type (hd (b_history (snd (load_metadata sample_to_numeric sample_csv)) ''B0005''))
     = ''discharge'' \<and>
   map cycle (b_history (snd (load_metadata sample_to_numeric sample_csv)) ''B0005'') = [1, 2] \<and>
   sorted (map test_id (b_history (snd (load_metadata sample_to_numeric sample_csv)) ''B0005''))"
proof -
  let ?hist = "b_history (snd (load_metadata sample_to_numeric sample_csv)) ''B0005''"
  have rows: "?hist =
     [\<lparr>battery_id = ''B0005'', test_id = 1, type = ''discharge'', Capacity = 2, cycle = 1\<rparr>,
      \<lparr>battery_id = ''B0005'', test_id = 4, type = ''discharge'', Capacity = 16 / 10,
        cycle = 2\<rparr>]"
    by code_simp
  then have len: "length ?hist = 2"
    by simp
  note f = ingestion_histories [of sample_to_numeric sample_csv "''B0005''"]
  from f have "map cycle ?hist = [1..<Suc (length ?hist)]"
    by blast
  then have cyc: "map cycle ?hist = [1, 2]"
    by (simp only: len) (simp add: upt_conv_Cons)
  from f have srt: "sorted (map test_id ?hist)"
    by blast
  have mem: "hd ?hist \<in> set ?hist"
    by (simp only: rows) simp
  from f mem have ty: "type (hd ?hist) = ''discharge''"
    by blast
  from rows mem ty cyc srt show ?thesis
    by blast
qed

end
